theory Spec2Isabelle
  imports Complex_Main "HOL-Library.AList"
begin

section \<open>Text: characters and the string methods the code calls\<close>

text \<open>
  A Python \<open>str\<close> is modelled as a \<open>string\<close> whose characters are the code points
  0..255. The character classes below are the ones Python's \<open>re\<close> module and
  \<open>str\<close> methods use on these code points: \<open>\s\<close> and \<open>str.strip\<close> share the
  Unicode white space, \<open>\d\<close> is the decimal digits, \<open>\w\<close> is the alphanumerics
  and the underscore, \<open>str.isdigit\<close> also accepts the superscript digits.
\<close>

definition code :: "char \<Rightarrow> nat" where
  "code c = of_char c"

definition is_space :: "char \<Rightarrow> bool" where
  "is_space c = (let n = code c in (9 \<le> n \<and> n \<le> 13) \<or> (28 \<le> n \<and> n \<le> 32) \<or> n = 133 \<or> n = 160)"

definition is_digit :: "char \<Rightarrow> bool" where
  "is_digit c = (let n = code c in 48 \<le> n \<and> n \<le> 57)"

definition str_isdigit_char :: "char \<Rightarrow> bool" where
  "str_isdigit_char c = (let n = code c in (48 \<le> n \<and> n \<le> 57) \<or> n = 178 \<or> n = 179 \<or> n = 185)"

definition is_word :: "char \<Rightarrow> bool" where
  "is_word c = (let n = code c in
     (48 \<le> n \<and> n \<le> 57) \<or> (65 \<le> n \<and> n \<le> 90) \<or> n = 95 \<or> (97 \<le> n \<and> n \<le> 122) \<or>
     n = 170 \<or> n = 178 \<or> n = 179 \<or> n = 181 \<or> n = 185 \<or> n = 186 \<or>
     (188 \<le> n \<and> n \<le> 190) \<or> (192 \<le> n \<and> n \<le> 214) \<or> (216 \<le> n \<and> n \<le> 246) \<or>
     (248 \<le> n \<and> n \<le> 255))"

definition newline :: char where
  "newline = CHR 0x0A"

definition ascii_lower :: "char \<Rightarrow> char" where
  "ascii_lower c = (let n = code c in if 65 \<le> n \<and> n \<le> 90 then char_of (n + 32) else c)"

text \<open>\<open>str.strip()\<close>: drop the white space at both ends.\<close>

definition lstrip :: "string \<Rightarrow> string" where
  "lstrip s = dropWhile is_space s"

definition rstrip :: "string \<Rightarrow> string" where
  "rstrip s = rev (dropWhile is_space (rev s))"

definition strip :: "string \<Rightarrow> string" where
  "strip s = rstrip (lstrip s)"

text \<open>\<open>str.isdigit()\<close>: non-empty and every character a digit character.\<close>

definition str_isdigit :: "string \<Rightarrow> bool" where
  "str_isdigit s = (s \<noteq> [] \<and> list_all str_isdigit_char s)"

text \<open>\<open>str.split('.')\<close>: the segments between the dots; never an empty list.\<close>

fun split_dot :: "string \<Rightarrow> string list" where
  "split_dot [] = [[]]"
| "split_dot (c # cs) =
     (if c = CHR ''.'' then [] # split_dot cs
      else (case split_dot cs of [] \<Rightarrow> [[c]] | w # ws \<Rightarrow> (c # w) # ws))"

text \<open>\<open>value.replace('.', '', 1)\<close>: remove the first dot.\<close>

fun remove_first_dot :: "string \<Rightarrow> string" where
  "remove_first_dot [] = []"
| "remove_first_dot (c # cs) = (if c = CHR ''.'' then cs else c # remove_first_dot cs)"

definition count_dot :: "string \<Rightarrow> nat" where
  "count_dot s = length (filter (\<lambda>c. c = CHR ''.'') s)"

section \<open>Regular expressions as the code writes them\<close>

text \<open>
  Every pattern of the program is a sequence of literals, repetitions of one character
  class, capture groups, \<open>$\<close> and one look-ahead of literal alternatives. The matcher
  is the backtracking one of Python's \<open>re\<close>: a greedy repetition tries the longest
  run first, a lazy one the shortest, and \<open>re.search\<close> takes the leftmost start.
\<close>

datatype cls = CSpace | CWord | CDigit | CWordDot | CQuote | CDot | CDotAll

fun in_cls :: "cls \<Rightarrow> char \<Rightarrow> bool" where
  "in_cls CSpace c = is_space c"
| "in_cls CWord c = is_word c"
| "in_cls CDigit c = is_digit c"
| "in_cls CWordDot c = (is_word c \<or> c = CHR ''.'')"
| "in_cls CQuote c = (c = CHR 0x22 \<or> c = CHR 0x27)"
| "in_cls CDot c = (c \<noteq> newline)"
| "in_cls CDotAll c = True"

datatype look = LStr string | LEnd

datatype item =
    RChr char
  | RChrI char
  | RPlus cls
  | RStar cls
  | ROpt cls
  | RLazy cls
  | ROpen
  | RClose
  | REol
  | RLook "look list"

text \<open>\<open>$\<close> without MULTILINE: at the end, or just before a newline that ends the text.\<close>

definition at_eol :: "string \<Rightarrow> bool" where
  "at_eol s = (s = [] \<or> s = [newline])"

fun prefix_of :: "string \<Rightarrow> string \<Rightarrow> bool" where
  "prefix_of [] s = True"
| "prefix_of (p # ps) [] = False"
| "prefix_of (p # ps) (c # cs) = (p = c \<and> prefix_of ps cs)"

fun look_ok :: "look \<Rightarrow> string \<Rightarrow> bool" where
  "look_ok (LStr p) s = prefix_of p s"
| "look_ok LEnd s = at_eol s"

text \<open>
  \<open>rmatch items s caps\<close> matches the rest of the pattern at the text \<open>s\<close>. \<open>caps\<close>
  is the stack of groups: an open group holds the text at which it began, a closed one
  the text it captured. The result is the stack and the text after the match.
\<close>

fun rmatch :: "item list \<Rightarrow> string \<Rightarrow> string list \<Rightarrow> (string list \<times> string) option" where
  "rmatch [] s caps = Some (caps, s)"
| "rmatch (RChr c # items) [] caps = None"
| "rmatch (RChr c # items) (x # xs) caps = (if x = c then rmatch items xs caps else None)"
| "rmatch (RChrI c # items) [] caps = None"
| "rmatch (RChrI c # items) (x # xs) caps =
     (if ascii_lower x = ascii_lower c then rmatch items xs caps else None)"
| "rmatch (RPlus k # items) [] caps = None"
| "rmatch (RPlus k # items) (x # xs) caps =
     (if in_cls k x then rmatch (RStar k # items) xs caps else None)"
| "rmatch (RStar k # items) [] caps = rmatch items [] caps"
| "rmatch (RStar k # items) (x # xs) caps =
     (if in_cls k x then
        (case rmatch (RStar k # items) xs caps of
           Some r \<Rightarrow> Some r
         | None \<Rightarrow> rmatch items (x # xs) caps)
      else rmatch items (x # xs) caps)"
| "rmatch (ROpt k # items) [] caps = rmatch items [] caps"
| "rmatch (ROpt k # items) (x # xs) caps =
     (if in_cls k x then
        (case rmatch items xs caps of
           Some r \<Rightarrow> Some r
         | None \<Rightarrow> rmatch items (x # xs) caps)
      else rmatch items (x # xs) caps)"
| "rmatch (RLazy k # items) [] caps = rmatch items [] caps"
| "rmatch (RLazy k # items) (x # xs) caps =
     (case rmatch items (x # xs) caps of
        Some r \<Rightarrow> Some r
      | None \<Rightarrow> if in_cls k x then rmatch (RLazy k # items) xs caps else None)"
| "rmatch (ROpen # items) s caps = rmatch items s (s # caps)"
| "rmatch (RClose # items) s [] = None"
| "rmatch (RClose # items) s (b # cs) = rmatch items s (take (length b - length s) b # cs)"
| "rmatch (REol # items) s caps = (if at_eol s then rmatch items s caps else None)"
| "rmatch (RLook alts # items) s caps =
     (if list_ex (\<lambda>a. look_ok a s) alts then rmatch items s caps else None)"

text \<open>
  \<open>re.search\<close>: the first position, from the left, at which the pattern matches. The
  result is the groups in the order of the pattern and the text after the match.
\<close>

definition finish :: "(string list \<times> string) \<Rightarrow> (string list \<times> string)" where
  "finish r = (rev (fst r), snd r)"

fun search :: "item list \<Rightarrow> string \<Rightarrow> (string list \<times> string) option" where
  "search items [] = map_option finish (rmatch items [] [])"
| "search items (x # xs) =
     (case rmatch items (x # xs) [] of
        Some r \<Rightarrow> Some (finish r)
      | None \<Rightarrow> search items xs)"

definition lit :: "string \<Rightarrow> item list" where
  "lit s = map RChr s"

definition liti :: "string \<Rightarrow> item list" where
  "liti s = map RChrI s"

subsection \<open>The patterns of \<open>update_game_state\<close>\<close>

definition sp :: "item list" where
  "sp = [RPlus CSpace]"

text \<open>\<^verbatim>\<open>decrease\s+resources\.(\w+)\s+by\s+(\d+)\<close>, IGNORECASE\<close>

definition decrease_rx :: "item list" where
  "decrease_rx = liti ''decrease'' @ sp @ liti ''resources.'' @ [ROpen, RPlus CWord, RClose] @ sp @
     liti ''by'' @ sp @ [ROpen, RPlus CDigit, RClose]"

text \<open>\<^verbatim>\<open>increase\s+resources\.(\w+)\s+by\s+(\d+)\<close>, IGNORECASE\<close>

definition increase_rx :: "item list" where
  "increase_rx = liti ''increase'' @ sp @ liti ''resources.'' @ [ROpen, RPlus CWord, RClose] @ sp @
     liti ''by'' @ sp @ [ROpen, RPlus CDigit, RClose]"

text \<open>\<^verbatim>\<open>set\s+resources\.(\w+)\s+to\s+(\d+)\<close>, IGNORECASE\<close>

definition set_rx :: "item list" where
  "set_rx = liti ''set'' @ sp @ liti ''resources.'' @ [ROpen, RPlus CWord, RClose] @ sp @
     liti ''to'' @ sp @ [ROpen, RPlus CDigit, RClose]"

text \<open>The tail \<^verbatim>\<open>["']?(.*?)["']?$\<close> that four patterns share.\<close>

definition quoted_tail :: "item list" where
  "quoted_tail = [ROpt CQuote, ROpen, RLazy CDot, RClose, ROpt CQuote, REol]"

text \<open>\<^verbatim>\<open>update\s+status\s+to\s+["']?(.*?)["']?$\<close>, IGNORECASE\<close>

definition status_rx :: "item list" where
  "status_rx = liti ''update'' @ sp @ liti ''status'' @ sp @ liti ''to'' @ sp @ quoted_tail"

text \<open>\<^verbatim>\<open>update\s+family\s+member\s+["']?(.*?)["']?\s+to\s+["']?(.*?)["']?$\<close>, IGNORECASE\<close>

definition family_rx :: "item list" where
  "family_rx = liti ''update'' @ sp @ liti ''family'' @ sp @ liti ''member'' @ sp @
     [ROpt CQuote, ROpen, RLazy CDot, RClose, ROpt CQuote] @ sp @ liti ''to'' @ sp @ quoted_tail"

text \<open>\<^verbatim>\<open>add\s+(\w+)\s+["']?(.*?)["']?$\<close>, IGNORECASE\<close>

definition add_rx :: "item list" where
  "add_rx = liti ''add'' @ sp @ [ROpen, RPlus CWord, RClose] @ sp @ quoted_tail"

text \<open>\<^verbatim>\<open>set\s+([\w\.]+)\s+to\s+["']?(.*?)["']?$\<close>, IGNORECASE\<close>

definition kv_rx :: "item list" where
  "kv_rx = liti ''set'' @ sp @ [ROpen, RPlus CWordDot, RClose] @ sp @ liti ''to'' @ sp @ quoted_tail"

text \<open>\<^verbatim>\<open>Day (\d+)\<close>, case-sensitive\<close>

definition day_rx :: "item list" where
  "day_rx = lit ''Day '' @ [ROpen, RPlus CDigit, RClose]"

section \<open>Values of the session state\<close>

text \<open>
  The state is the JSON-like tree Python holds: a dict is an association list in
  insertion order. A float carries the exact decimal value of its literal (the rounding
  to binary64 is not modelled).
\<close>

datatype pyval =
    VNone
  | VBool bool
  | VInt int
  | VFloat rat
  | VStr string
  | VList "pyval list"
  | VDict "(string \<times> pyval) list"

type_synonym dict = "(string \<times> pyval) list"

datatype exn = TypeError | KeyError | ValueError | AttributeError | IndexError

fun substr_of :: "string \<Rightarrow> string \<Rightarrow> bool" where
  "substr_of p [] = (p = [])"
| "substr_of p (c # cs) = (prefix_of p (c # cs) \<or> substr_of p cs)"

text \<open>\<open>key in container\<close>, for a string key.\<close>

fun py_in :: "string \<Rightarrow> pyval \<Rightarrow> exn + bool" where
  "py_in k (VDict d) = Inr (map_of d k \<noteq> None)"
| "py_in k (VStr s) = Inr (substr_of k s)"
| "py_in k (VList l) = Inr (VStr k \<in> set l)"
| "py_in k v = Inl TypeError"

text \<open>\<open>container[key]\<close>, for a string key: only a dict can be indexed by a string.\<close>

fun getitem :: "pyval \<Rightarrow> string \<Rightarrow> exn + pyval" where
  "getitem (VDict d) k = (case map_of d k of None \<Rightarrow> Inl KeyError | Some v \<Rightarrow> Inr v)"
| "getitem v k = Inl TypeError"

text \<open>\<open>container[key] = v\<close>, for a string key.\<close>

fun setitem :: "pyval \<Rightarrow> string \<Rightarrow> pyval \<Rightarrow> exn + pyval" where
  "setitem (VDict d) k v = Inr (VDict (AList.update k v d))"
| "setitem c k v = Inl TypeError"

text \<open>
  \<open>int(text)\<close> on a text of decimal digits. The two call sites pass a \<^verbatim>\<open>\d+\<close>
  capture or a text for which \<open>isdigit()\<close> holds; a superscript digit makes
  \<open>int\<close> raise ValueError.
\<close>

definition digit_val :: "char \<Rightarrow> int" where
  "digit_val c = int (code c) - 48"

definition digits_val :: "string \<Rightarrow> int" where
  "digits_val s = foldl (\<lambda>a c. 10 * a + digit_val c) 0 s"

definition py_int :: "string \<Rightarrow> exn + int" where
  "py_int s = (if s \<noteq> [] \<and> list_all is_digit s then Inr (digits_val s) else Inl ValueError)"

text \<open>\<open>float(text)\<close> on digits with at most one dot.\<close>

definition frac_len :: "string \<Rightarrow> nat" where
  "frac_len s = (if CHR ''.'' \<in> set s then length (takeWhile (\<lambda>c. c \<noteq> CHR ''.'') (rev s)) else 0)"

definition py_float :: "string \<Rightarrow> exn + rat" where
  "py_float s =
     (let ds = remove_first_dot s in
      if ds \<noteq> [] \<and> list_all is_digit ds then Inr (of_int (digits_val ds) / 10 ^ frac_len s)
      else Inl ValueError)"

text \<open>\<open>v - n\<close> and \<open>v + n\<close> for an int \<open>n\<close>; \<open>max(0, v)\<close>.\<close>

fun py_sub :: "pyval \<Rightarrow> int \<Rightarrow> exn + pyval" where
  "py_sub (VInt a) n = Inr (VInt (a - n))"
| "py_sub (VBool b) n = Inr (VInt (of_bool b - n))"
| "py_sub (VFloat f) n = Inr (VFloat (f - of_int n))"
| "py_sub v n = Inl TypeError"

fun py_add :: "pyval \<Rightarrow> int \<Rightarrow> exn + pyval" where
  "py_add (VInt a) n = Inr (VInt (a + n))"
| "py_add (VBool b) n = Inr (VInt (of_bool b + n))"
| "py_add (VFloat f) n = Inr (VFloat (f + of_int n))"
| "py_add v n = Inl TypeError"

fun py_max0 :: "pyval \<Rightarrow> exn + pyval" where
  "py_max0 (VInt a) = Inr (if a > 0 then VInt a else VInt 0)"
| "py_max0 (VBool b) = Inr (if b then VBool b else VInt 0)"
| "py_max0 (VFloat f) = Inr (if f > 0 then VFloat f else VInt 0)"
| "py_max0 v = Inl TypeError"

text \<open>Sequencing of steps that may raise.\<close>

definition bind :: "exn + 'a \<Rightarrow> ('a \<Rightarrow> exn + 'b) \<Rightarrow> exn + 'b" where
  "bind m f = (case m of Inl e \<Rightarrow> Inl e | Inr x \<Rightarrow> f x)"

section \<open>The directive interpreter: \<open>update_game_state\<close>\<close>

text \<open>\<open>state.get("resources", {})\<close>\<close>

definition get_resources :: "dict \<Rightarrow> pyval" where
  "get_resources state = (case map_of state ''resources'' of None \<Rightarrow> VDict [] | Some v \<Rightarrow> v)"

text \<open>
  \<open>state["resources"][resource] = v\<close>: the outer subscript raises KeyError when the
  state has no \<open>resources\<close>.
\<close>

definition set_resource :: "dict \<Rightarrow> string \<Rightarrow> pyval \<Rightarrow> exn + dict" where
  "set_resource state resource v =
     bind (getitem (VDict state) ''resources'') (\<lambda>rs.
     bind (setitem rs resource v) (\<lambda>rs'.
     Inr (AList.update ''resources'' rs' state)))"

definition get_resource :: "dict \<Rightarrow> string \<Rightarrow> exn + pyval" where
  "get_resource state resource =
     bind (getitem (VDict state) ''resources'') (\<lambda>rs. getitem rs resource)"

text \<open>The branch of \<open>decrease_match\<close>.\<close>

definition do_decrease :: "dict \<Rightarrow> string \<Rightarrow> string \<Rightarrow> exn + dict" where
  "do_decrease state resource amount =
     bind (py_in resource (get_resources state)) (\<lambda>present.
     if present then
       bind (get_resource state resource) (\<lambda>old.
       bind (py_int amount) (\<lambda>n.
       bind (py_sub old n) (\<lambda>d.
       bind (py_max0 d) (\<lambda>new.
       set_resource state resource new))))
     else Inr state)"

text \<open>The branch of \<open>increase_match\<close>.\<close>

definition do_increase :: "dict \<Rightarrow> string \<Rightarrow> string \<Rightarrow> exn + dict" where
  "do_increase state resource amount =
     bind (py_in resource (get_resources state)) (\<lambda>present.
     if present then
       bind (get_resource state resource) (\<lambda>old.
       bind (py_int amount) (\<lambda>n.
       bind (py_add old n) (\<lambda>new.
       set_resource state resource new)))
     else
       bind (py_int amount) (\<lambda>n. set_resource state resource (VInt n)))"

text \<open>The branch of \<open>set_match\<close>.\<close>

definition do_set :: "dict \<Rightarrow> string \<Rightarrow> string \<Rightarrow> exn + dict" where
  "do_set state resource amount =
     (let state1 = (if map_of state ''resources'' = None
                    then AList.update ''resources'' (VDict []) state else state)
      in bind (py_int amount) (\<lambda>n. set_resource state1 resource (VInt n)))"

text \<open>The branch of \<open>status_match\<close>.\<close>

definition do_status :: "dict \<Rightarrow> string \<Rightarrow> exn + dict" where
  "do_status state text = Inr (AList.update ''status'' (VStr (strip text)) state)"

text \<open>The branch of \<open>family_update_match\<close>.\<close>

definition do_family :: "dict \<Rightarrow> string \<Rightarrow> string \<Rightarrow> exn + dict" where
  "do_family state member status =
     (let state1 = (if map_of state ''family_status'' = None
                    then AList.update ''family_status'' (VDict []) state else state)
      in bind (getitem (VDict state1) ''family_status'') (\<lambda>fs.
         bind (setitem fs (strip member) (VStr (strip status))) (\<lambda>fs'.
         Inr (AList.update ''family_status'' fs' state1))))"

text \<open>The branch of \<open>add_match\<close>.\<close>

definition do_add :: "dict \<Rightarrow> string \<Rightarrow> string \<Rightarrow> exn + dict" where
  "do_add state category v =
     (let state1 = (if map_of state category = None
                    then AList.update category (VList []) state else state)
      in case map_of state1 category of
           Some (VList l) \<Rightarrow> Inr (AList.update category (VList (l @ [VStr (strip v)])) state1)
         | _ \<Rightarrow> Inr state1)"

text \<open>
  The value the generic branch stores: an int when \<open>isdigit()\<close> holds, a float for
  digits with one dot, the text otherwise; the bare \<open>except\<close> stores the text when the
  conversion raises. (The limit that later Python versions put on the number of digits
  \<open>int\<close> accepts is not modelled.)
\<close>

definition coerce :: "string \<Rightarrow> pyval" where
  "coerce v =
     (if str_isdigit v then (case py_int v of Inr n \<Rightarrow> VInt n | Inl e \<Rightarrow> VStr v)
      else if str_isdigit (remove_first_dot v) \<and> count_dot v \<le> 1 then
        (case py_float v of Inr f \<Rightarrow> VFloat f | Inl e \<Rightarrow> VStr v)
      else VStr v)"

text \<open>
  The walk of the generic branch along \<open>keys[:-1]\<close> and the assignment of the leaf
  \<open>keys[-1]\<close>. A missing key gets a fresh dict; a value that is not a dict raises at
  the membership test or at the subscript.
\<close>

fun step_into :: "pyval \<Rightarrow> string \<Rightarrow> exn + pyval" where
  "step_into cur k =
     bind (py_in k cur) (\<lambda>present.
     if present then getitem cur k
     else bind (setitem cur k (VDict [])) (\<lambda>cur'. Inr (VDict [])))"

fun set_path :: "dict \<Rightarrow> string list \<Rightarrow> pyval \<Rightarrow> exn + dict" where
  "set_path d [] v = Inr d"
| "set_path d [k] v = Inr (AList.update k v d)"
| "set_path d (k # k' # ks) v =
     bind (step_into (VDict d) k) (\<lambda>sub.
       case sub of
         VDict d' \<Rightarrow> bind (set_path d' (k' # ks) v) (\<lambda>d''. Inr (AList.update k (VDict d'') d))
       | _ \<Rightarrow> Inl TypeError)"

text \<open>The branch of \<open>kv_match\<close>.\<close>

definition do_kv :: "dict \<Rightarrow> string \<Rightarrow> string \<Rightarrow> exn + dict" where
  "do_kv state key_path v = set_path state (split_dot key_path) (coerce v)"

text \<open>\<open>match.groups()\<close> of a pattern with two groups, and \<open>match.group(1)\<close> of one with one.\<close>

fun groups2 :: "(string list \<times> string) option \<Rightarrow> (string \<times> string) option" where
  "groups2 (Some ([a, b], r)) = Some (a, b)"
| "groups2 m = None"

fun group1 :: "(string list \<times> string) option \<Rightarrow> string option" where
  "group1 (Some ([a], r)) = Some a"
| "group1 m = None"

text \<open>
  The body of the loop over the modifications: the first pattern whose search
  succeeds decides, and no later pattern is tried.
\<close>

definition mod_body :: "dict \<Rightarrow> string \<Rightarrow> exn + dict" where
  "mod_body state m =
     (case groups2 (search decrease_rx m) of
        Some (resource, amount) \<Rightarrow> do_decrease state resource amount
      | None \<Rightarrow>
     (case groups2 (search increase_rx m) of
        Some (resource, amount) \<Rightarrow> do_increase state resource amount
      | None \<Rightarrow>
     (case groups2 (search set_rx m) of
        Some (resource, amount) \<Rightarrow> do_set state resource amount
      | None \<Rightarrow>
     (case group1 (search status_rx m) of
        Some text \<Rightarrow> do_status state text
      | None \<Rightarrow>
     (case groups2 (search family_rx m) of
        Some (member, status) \<Rightarrow> do_family state member status
      | None \<Rightarrow>
     (case groups2 (search add_rx m) of
        Some (category, v) \<Rightarrow> do_add state category v
      | None \<Rightarrow>
     (case groups2 (search kv_rx m) of
        Some (key_path, v) \<Rightarrow> do_kv state key_path v
      | None \<Rightarrow> Inr state)))))))"

text \<open>
  One modification under the \<open>try\<close>/\<open>except Exception\<close> of the loop. No branch
  changes the state before it raises, so a raise leaves the state as it was.
\<close>

definition apply_mod :: "dict \<Rightarrow> string \<Rightarrow> dict" where
  "apply_mod state m = (case mod_body state m of Inl e \<Rightarrow> state | Inr state' \<Rightarrow> state')"

text \<open>\<open>str(n)\<close> for an int, as the f-string \<open>f"Day {n}"\<close> renders it.\<close>

definition digit_char :: "nat \<Rightarrow> char" where
  "digit_char n = char_of (48 + n)"

fun dec :: "nat \<Rightarrow> string" where
  "dec n = (if n < 10 then [digit_char n] else dec (n div 10) @ [digit_char (n mod 10)])"

declare dec.simps [simp del]

definition str_int :: "int \<Rightarrow> string" where
  "str_int i = (if i < 0 then CHR ''-'' # dec (nat (- i)) else dec (nat i))"

section \<open>The session\<close>

text \<open>
  The entries of \<open>st.session_state\<close> the program reads and writes. \<open>initial_state\<close>
  is the dict the interpreter mutates.
\<close>

record session =
  app_state :: string
  initial_state :: dict
  simulation_log :: "string list"
  current_day :: int
  crisis_description :: string
  latest_update :: string

text \<open>
  \<open>state.get("status", "")\<close> handed to \<open>re.search\<close>, which raises TypeError on a
  value that is not a string.
\<close>

definition status_text :: "dict \<Rightarrow> exn + string" where
  "status_text state =
     (case map_of state ''status'' of
        None \<Rightarrow> Inr []
      | Some (VStr s) \<Rightarrow> Inr s
      | Some v \<Rightarrow> Inl TypeError)"

text \<open>The bump of the status after the loop: \<open>int(day_match.group(1)) == current_day\<close>.\<close>

definition bump_status :: "dict \<Rightarrow> string \<Rightarrow> int \<Rightarrow> dict" where
  "bump_status state txt day =
     (case group1 (search day_rx txt) of
        Some d \<Rightarrow>
          (if py_int d = Inr day
           then AList.update ''status'' (VStr (''Day '' @ str_int (day + 1))) state
           else state)
      | None \<Rightarrow> state)"

text \<open>
  \<open>update_game_state\<close>. The search for the day stands outside the \<open>try\<close> of the
  loop: when it raises, the function ends there, with the state as the loop left it and
  the day counter untouched. \<open>Inl\<close> carries the exception and the session at the raise.
\<close>

definition update_game_state :: "session \<Rightarrow> string list \<Rightarrow> (exn \<times> session) + session" where
  "update_game_state sess modifications =
     (let state = foldl apply_mod (initial_state sess) modifications in
      case status_text state of
        Inl e \<Rightarrow> Inl (e, sess\<lparr>initial_state := state\<rparr>)
      | Inr txt \<Rightarrow>
          Inr (sess\<lparr>initial_state := bump_status state txt (current_day sess),
                     current_day := current_day sess + 1\<rparr>))"

text \<open>
  The front end's \<open>generate_crisis_scenario\<close>, given what the back end answered (no
  answer, or the status and the scenario text of the envelope).
\<close>

definition generate_crisis_scenario :: "session \<Rightarrow> (int \<times> string) option \<Rightarrow> session" where
  "generate_crisis_scenario sess response =
     (case response of
        None \<Rightarrow> sess
      | Some (status, scenario_description) \<Rightarrow>
          if status = 200 \<and> scenario_description \<noteq> [] then
            sess\<lparr>crisis_description := scenario_description,
                 latest_update := scenario_description,
                 simulation_log := [scenario_description],
                 current_day := 1,
                 app_state := ''in_simulation''\<rparr>
          else sess)"






section \<open>The completion client: \<open>get_mistral_response\<close>\<close>

text \<open>
  What \<open>requests.post\<close> brings back: a transport error, or a status code with a body
  that is JSON or not. \<open>raise_for_status\<close> raises for the codes 400..599.
\<close>

datatype http_outcome = TransportError | HttpResponse nat "pyval option"

text \<open>\<open>d.get(key, default)\<close>: only a dict has \<open>get\<close>.\<close>

fun py_get :: "pyval \<Rightarrow> string \<Rightarrow> pyval \<Rightarrow> exn + pyval" where
  "py_get (VDict d) k dflt = Inr (case map_of d k of None \<Rightarrow> dflt | Some v \<Rightarrow> v)"
| "py_get v k dflt = Inl AttributeError"

text \<open>\<open>v[0]\<close>\<close>

fun index0 :: "pyval \<Rightarrow> exn + pyval" where
  "index0 (VList []) = Inl IndexError"
| "index0 (VList (x # xs)) = Inr x"
| "index0 (VStr []) = Inl IndexError"
| "index0 (VStr (c # cs)) = Inr (VStr [c])"
| "index0 (VDict d) = Inl KeyError"
| "index0 v = Inl TypeError"

text \<open>\<open>len(v)\<close>, which the debug line calls on the content.\<close>

fun py_len :: "pyval \<Rightarrow> exn + nat" where
  "py_len (VStr s) = Inr (length s)"
| "py_len (VList l) = Inr (length l)"
| "py_len (VDict d) = Inr (length d)"
| "py_len v = Inl TypeError"

definition extract_content :: "pyval \<Rightarrow> exn + pyval" where
  "extract_content result =
     bind (py_get result ''choices'' (VList [VDict []])) (\<lambda>choices.
     bind (index0 choices) (\<lambda>choice.
     bind (py_get choice ''message'' (VDict [])) (\<lambda>message.
     bind (py_get message ''content'' (VStr [])) (\<lambda>content.
     bind (py_len content) (\<lambda>n. Inr content)))))"

text \<open>\<open>None\<close> is Python's \<open>None\<close>; both \<open>except\<close> clauses return it.\<close>

definition get_mistral_response :: "http_outcome \<Rightarrow> pyval option" where
  "get_mistral_response outcome =
     (case outcome of
        TransportError \<Rightarrow> None
      | HttpResponse status body \<Rightarrow>
          if 400 \<le> status \<and> status < 600 then None
          else (case body of
                  None \<Rightarrow> None
                | Some result \<Rightarrow>
                    (case extract_content result of Inl e \<Rightarrow> None | Inr content \<Rightarrow> Some content)))"

section \<open>The response parser of \<open>process_user_decision\<close>\<close>

text \<open>\<^verbatim>\<open>NEXT_SITUATION_DESCRIPTION:\s*(.*?)(?=\nJSON_MODIFICATIONS:|$)\<close>, DOTALL\<close>

definition next_rx :: "item list" where
  "next_rx = lit ''NEXT_SITUATION_DESCRIPTION:'' @
     [RStar CSpace, ROpen, RLazy CDotAll, RClose,
      RLook [LStr (newline # ''JSON_MODIFICATIONS:''), LEnd]]"

text \<open>\<^verbatim>\<open>JSON_MODIFICATIONS:\s*(.*?)(?=$)\<close>, DOTALL\<close>

definition mods_rx :: "item list" where
  "mods_rx = lit ''JSON_MODIFICATIONS:'' @ [RStar CSpace, ROpen, RLazy CDotAll, RClose, RLook [LEnd]]"

text \<open>\<^verbatim>\<open>- (.*?)(?=\n- |\n\n|$)\<close>, DOTALL\<close>

definition item_rx :: "item list" where
  "item_rx = lit ''- '' @
     [ROpen, RLazy CDotAll, RClose,
      RLook [LStr (newline # ''- ''), LStr [newline, newline], LEnd]]"

text \<open>
  \<open>re.findall\<close>: the groups of the successive matches, each search resuming where the
  match before it ended. The pattern the code passes, \<open>item_rx\<close>, begins with two
  literal characters, so a match always consumes text and the rest is shorter; the
  other branch, a match that consumed nothing, does not arise with it.
\<close>

function findall :: "item list \<Rightarrow> string \<Rightarrow> string list list" where
  "findall items s =
     (case search items s of
        None \<Rightarrow> []
      | Some (groups, rest) \<Rightarrow>
          groups # (if length rest < length s then findall items rest else []))"
  by pat_completeness auto
termination
  by (relation "measure (\<lambda>(items, s). length s)") auto

declare findall.simps [simp del]

text \<open>The narrative and the modifications that \<open>process_user_decision\<close> takes out of the text.\<close>

definition parse_next_situation :: "string \<Rightarrow> string" where
  "parse_next_situation response =
     (case group1 (search next_rx response) of Some g \<Rightarrow> strip g | None \<Rightarrow> [])"

definition parse_json_mods_text :: "string \<Rightarrow> string" where
  "parse_json_mods_text response =
     (case group1 (search mods_rx response) of Some g \<Rightarrow> strip g | None \<Rightarrow> [])"

definition parse_modifications :: "string \<Rightarrow> string list" where
  "parse_modifications json_mods_text =
     (if json_mods_text \<noteq> [] then
        filter (\<lambda>m. m \<noteq> []) (map strip (concat (findall item_rx json_mods_text)))
      else [])"

text \<open>
  \<open>process_user_decision\<close> from the completion on: \<open>None\<close> when there is no
  completion or an empty one.
\<close>

definition process_user_decision :: "string option \<Rightarrow> (string \<times> string list) option" where
  "process_user_decision response =
     (case response of
        None \<Rightarrow> None
      | Some text \<Rightarrow>
          if text = [] then None
          else Some (parse_next_situation text, parse_modifications (parse_json_mods_text text)))"

section \<open>Vocabulary of the properties\<close>







text \<open>Reading \<open>state[k1][k2]...\<close> along a path of keys.\<close>

fun read_path :: "pyval \<Rightarrow> string list \<Rightarrow> exn + pyval" where
  "read_path v [] = Inr v"
| "read_path v (k # ks) = bind (getitem v k) (\<lambda>sub. read_path sub ks)"

text \<open>A key is absent from a dict, or holds a dict.\<close>

definition absent_or_dict :: "dict \<Rightarrow> string \<Rightarrow> bool" where
  "absent_or_dict d k = (case map_of d k of None \<Rightarrow> True | Some (VDict sub) \<Rightarrow> True | Some v \<Rightarrow> False)"

definition sub_dict :: "dict \<Rightarrow> string \<Rightarrow> dict" where
  "sub_dict d k = (case map_of d k of Some (VDict sub) \<Rightarrow> sub | _ \<Rightarrow> [])"

text \<open>A session just after a scenario was generated, and a turn without modifications.\<close>

definition fresh :: session where
  "fresh = generate_crisis_scenario
     \<lparr>app_state = ''generating_scenario'', initial_state = [(''status'', VStr ''Day 1'')],
      simulation_log = [], current_day = 0, crisis_description = [], latest_update = []\<rparr>
     (Some (200, ''flood''))"



text \<open>The state the input form builds: it has no \<open>resources\<close>.\<close>

definition form_state :: dict where
  "form_state = [(''profile'', VStr ''Boss''), (''description'', VStr ''office''),
     (''status'', VStr ''Day 1'')]"

text \<open>The text begins with a character of the class.\<close>

fun starts :: "cls \<Rightarrow> string \<Rightarrow> bool" where
  "starts k [] = False"
| "starts k (x # xs) = in_cls k x"



text \<open>
  Where a lazy \<open>.*?\<close> under DOTALL stops: the first rest of the text at which one of
  the alternatives of the look-ahead holds.
\<close>

fun until_look :: "look list \<Rightarrow> string \<Rightarrow> string" where
  "until_look alts [] = []"
| "until_look alts (x # xs) =
     (if list_ex (\<lambda>a. look_ok a (x # xs)) alts then x # xs else until_look alts xs)"

text \<open>The marker \<open>w\<close> begins at no position inside \<open>pre\<close> of the text \<open>pre @ s\<close>.\<close>

fun no_start :: "string \<Rightarrow> string \<Rightarrow> string \<Rightarrow> bool" where
  "no_start w [] s = True"
| "no_start w (a # pre) s = (\<not> prefix_of w (a # pre @ s) \<and> no_start w pre s)"

definition next_marker :: string where
  "next_marker = ''NEXT_SITUATION_DESCRIPTION:''"

definition mods_marker :: string where
  "mods_marker = ''JSON_MODIFICATIONS:''"

text \<open>A completion with the two markers in the reversed order.\<close>

definition reversed_text :: string where
  "reversed_text = ''JSON_MODIFICATIONS:'' @ [newline] @ ''- rest'' @ [newline] @
     ''NEXT_SITUATION_DESCRIPTION: You wait.''"

text \<open>The alternatives of the look-ahead of \<open>item_rx\<close>.\<close>

definition item_alts :: "look list" where
  "item_alts = [LStr (newline # ''- ''), LStr [newline, newline], LEnd]"

text \<open>What the group of \<open>item_rx\<close> captures when the text after the dash and the space is \<open>t\<close>.\<close>

definition item_group :: "string \<Rightarrow> string" where
  "item_group t = take (length t - length (until_look item_alts t)) t"

text \<open>\<open>re.findall\<close> with \<open>item_rx\<close> finds an item that is not blank.\<close>

definition has_item :: "string \<Rightarrow> bool" where
  "has_item s = list_ex (\<lambda>m. strip m \<noteq> []) (concat (findall item_rx s))"

text \<open>A completion in the documented order whose only dash line is blank.\<close>

definition blank_item_text :: string where
  "blank_item_text = ''NEXT_SITUATION_DESCRIPTION: You wait.'' @ [newline] @
     ''JSON_MODIFICATIONS:'' @ [newline] @ ''- '' @ [newline, newline] @ ''Done.''"

section \<open>Properties of the completion client\<close>

text \<open>
  C9, as stated, fails: a JSON body that lacks the expected fields is not collapsed
  into \<open>None\<close>. With status 200 and the body \<open>{}\<close> the defaults of the
  \<open>get\<close> chain make the client return the empty string.
\<close>

theorem client_empty_body_counterexample:
  "get_mistral_response (HttpResponse 200 (Some (VDict []))) = Some (VStr [])"
  by (simp add: get_mistral_response_def extract_content_def bind_def)

text \<open>
  C9, amended: the client returns \<open>None\<close> on a transport error, on every status
  400..599 and on a body that is not JSON; a JSON object without the field
  \<open>choices\<close>, under any other status, yields the empty string and not \<open>None\<close>.
\<close>

theorem client_failures:
  "get_mistral_response TransportError = None \<and>
   (\<forall>status body. 400 \<le> status \<and> status < 600 \<longrightarrow>
       get_mistral_response (HttpResponse status body) = None) \<and>
   (\<forall>status. get_mistral_response (HttpResponse status None) = None) \<and>
   (\<forall>status d. \<not> (400 \<le> status \<and> status < 600) \<and> map_of d ''choices'' = None \<longrightarrow>
       get_mistral_response (HttpResponse status (Some (VDict d))) = Some (VStr []))"
  by (simp add: get_mistral_response_def extract_content_def bind_def)

theorem client_failures_witness:
  "(400::nat) \<le> 404 \<and> (404::nat) < 600 \<and>
   get_mistral_response (HttpResponse 404 (Some (VDict [(''error'', VStr ''not found'')]))) = None \<and>
   \<not> (400 \<le> (201::nat) \<and> (201::nat) < 600) \<and>
   map_of [(''id'', VStr ''x'')] ''choices'' = None \<and>
   get_mistral_response (HttpResponse 201 (Some (VDict [(''id'', VStr ''x'')]))) = Some (VStr [])"
  using client_failures [THEN conjunct2, THEN conjunct1, rule_format,
          of 404 "Some (VDict [(''error'', VStr ''not found'')])"]
        client_failures [THEN conjunct2, THEN conjunct2, THEN conjunct2, rule_format,
          of 201 "[(''id'', VStr ''x'')]"]
  by simp

section \<open>Properties of the session state machine\<close>







text \<open>
  When the status is a text, or there is none, after the loop, the call completes and
  the day counter has grown by exactly one, whatever the directives were.
\<close>

lemma day_counter_increments:
  "status_text (foldl apply_mod (initial_state sess) mods) = Inr txt \<Longrightarrow>
   \<exists>sess'. update_game_state sess mods = Inr sess' \<and> current_day sess' = current_day sess + 1"
  by (simp add: update_game_state_def Let_def)

text \<open>
  C4: the day counter is to grow by one with every call of \<open>update_game_state\<close>.
  The code misses the case of a status that is no text: after the directive
  \<open>set status to 5\<close> the generic branch has stored the int 5, the search for the
  day raises TypeError outside the \<open>try\<close>, and the call ends before the increment.
\<close>

theorem day_counter_stuck_on_int_status:
  "update_game_state fresh [''set status to 5''] =
     Inl (TypeError, fresh\<lparr>initial_state := [(''status'', VInt 5)]\<rparr>)"
  by code_simp

section \<open>Properties of the directive interpreter\<close>

text \<open>
  C8: \<open>increase resources.X by N\<close> is to create the key when it is missing. On a
  state without \<open>resources\<close> (the one the input form builds) the subscript
  \<open>state["resources"]\<close> raises KeyError, the loop swallows it, and nothing is created.
\<close>

theorem increase_without_resources_is_dropped:
  "mod_body form_state ''increase resources.medicine by 3'' = Inl KeyError \<and>
   apply_mod form_state ''increase resources.medicine by 3'' = form_state"
  by code_simp

subsection \<open>The generic key-path branch\<close>

lemma kv_only_int:
  "groups2 (search decrease_rx ''set a.b.c to 5'') = None \<and>
   groups2 (search increase_rx ''set a.b.c to 5'') = None \<and>
   groups2 (search set_rx ''set a.b.c to 5'') = None \<and>
   group1 (search status_rx ''set a.b.c to 5'') = None \<and>
   groups2 (search family_rx ''set a.b.c to 5'') = None \<and>
   groups2 (search add_rx ''set a.b.c to 5'') = None \<and>
   groups2 (search kv_rx ''set a.b.c to 5'') = Some (''a.b.c'', ''5'')"
  by code_simp

lemma kv_only_float:
  "groups2 (search decrease_rx ''set a.b.c to 5.5'') = None \<and>
   groups2 (search increase_rx ''set a.b.c to 5.5'') = None \<and>
   groups2 (search set_rx ''set a.b.c to 5.5'') = None \<and>
   group1 (search status_rx ''set a.b.c to 5.5'') = None \<and>
   groups2 (search family_rx ''set a.b.c to 5.5'') = None \<and>
   groups2 (search add_rx ''set a.b.c to 5.5'') = None \<and>
   groups2 (search kv_rx ''set a.b.c to 5.5'') = Some (''a.b.c'', ''5.5'')"
  by code_simp

lemma kv_only_text:
  "groups2 (search decrease_rx ''set a.b.c to hello'') = None \<and>
   groups2 (search increase_rx ''set a.b.c to hello'') = None \<and>
   groups2 (search set_rx ''set a.b.c to hello'') = None \<and>
   group1 (search status_rx ''set a.b.c to hello'') = None \<and>
   groups2 (search family_rx ''set a.b.c to hello'') = None \<and>
   groups2 (search add_rx ''set a.b.c to hello'') = None \<and>
   groups2 (search kv_rx ''set a.b.c to hello'') = Some (''a.b.c'', ''hello'')"
  by code_simp

lemma path_abc: "split_dot ''a.b.c'' = [''a'', ''b'', ''c'']"
  by code_simp

lemma coerce_samples:
  "coerce ''5'' = VInt 5" "coerce ''5.5'' = VFloat (11 / 2)" "coerce ''hello'' = VStr ''hello''"
  by code_simp+

lemma set_path_read3:
  assumes "absent_or_dict state a" "absent_or_dict (sub_dict state a) b"
  shows "(case set_path state [a, b, c] v of Inl e \<Rightarrow> False
          | Inr state' \<Rightarrow> read_path (VDict state') [a, b, c] = Inr v)"
  using assms
  by (auto simp: absent_or_dict_def sub_dict_def bind_def update_conv'
      split: option.splits pyval.splits)

text \<open>
  C7, as stated for any state, fails: where \<open>a\<close> already holds a value that is not a
  mapping the walk raises TypeError, the loop swallows it, and nothing can be read at
  \<open>a.b.c\<close>.
\<close>

theorem key_path_blocked_counterexample:
  "read_path (VDict (apply_mod [(''a'', VInt 1)] ''set a.b.c to 5'')) [''a'', ''b'', ''c'']
     = Inl TypeError"
  by code_simp

text \<open>
  C7, amended: for any state in which \<open>a\<close> is absent or a mapping, and \<open>b\<close> in it
  is absent or a mapping, applying \<open>set a.b.c to 5\<close> and reading
  \<open>state["a"]["b"]["c"]\<close> yields the int 5; \<open>set a.b.c to 5.5\<close> yields the float
  5.5; \<open>set a.b.c to hello\<close> yields the text \<open>hello\<close>. The mappings that were
  absent are created.
\<close>

theorem key_path_round_trip:
  assumes "absent_or_dict state ''a''" "absent_or_dict (sub_dict state ''a'') ''b''"
  shows "read_path (VDict (apply_mod state ''set a.b.c to 5'')) [''a'', ''b'', ''c'']
           = Inr (VInt 5) \<and>
         read_path (VDict (apply_mod state ''set a.b.c to 5.5'')) [''a'', ''b'', ''c'']
           = Inr (VFloat (11 / 2)) \<and>
         read_path (VDict (apply_mod state ''set a.b.c to hello'')) [''a'', ''b'', ''c'']
           = Inr (VStr ''hello'')"
proof -
  have m: "mod_body state ''set a.b.c to 5'' = set_path state [''a'', ''b'', ''c''] (VInt 5)"
    "mod_body state ''set a.b.c to 5.5'' = set_path state [''a'', ''b'', ''c''] (VFloat (11 / 2))"
    "mod_body state ''set a.b.c to hello'' = set_path state [''a'', ''b'', ''c''] (VStr ''hello'')"
    by (simp_all only: mod_body_def kv_only_int kv_only_float kv_only_text option.case prod.case
        do_kv_def path_abc coerce_samples)
  from set_path_read3 [OF assms, of "''c''" "VInt 5"]
  have r1: "read_path (VDict (apply_mod state ''set a.b.c to 5'')) [''a'', ''b'', ''c'']
              = Inr (VInt 5)"
    unfolding apply_mod_def m(1)
    by (cases "set_path state [''a'', ''b'', ''c''] (VInt 5)") simp_all
  from set_path_read3 [OF assms, of "''c''" "VFloat (11 / 2)"]
  have r2: "read_path (VDict (apply_mod state ''set a.b.c to 5.5'')) [''a'', ''b'', ''c'']
              = Inr (VFloat (11 / 2))"
    unfolding apply_mod_def m(2)
    by (cases "set_path state [''a'', ''b'', ''c''] (VFloat (11 / 2))") simp_all
  from set_path_read3 [OF assms, of "''c''" "VStr ''hello''"]
  have r3: "read_path (VDict (apply_mod state ''set a.b.c to hello'')) [''a'', ''b'', ''c'']
              = Inr (VStr ''hello'')"
    unfolding apply_mod_def m(3)
    by (cases "set_path state [''a'', ''b'', ''c''] (VStr ''hello'')") simp_all
  from r1 r2 r3 show ?thesis by blast
qed

theorem key_path_round_trip_witness:
  "absent_or_dict [(''a'', VDict [(''x'', VInt 1)])] ''a'' \<and>
   absent_or_dict (sub_dict [(''a'', VDict [(''x'', VInt 1)])] ''a'') ''b'' \<and>
   read_path (VDict (apply_mod [(''a'', VDict [(''x'', VInt 1)])] ''set a.b.c to 5''))
     [''a'', ''b'', ''c''] = Inr (VInt 5) \<and>
   read_path (VDict (apply_mod [(''a'', VDict [(''x'', VInt 1)])] ''set a.b.c to 5.5''))
     [''a'', ''b'', ''c''] = Inr (VFloat (11 / 2)) \<and>
   read_path (VDict (apply_mod [(''a'', VDict [(''x'', VInt 1)])] ''set a.b.c to hello''))
     [''a'', ''b'', ''c''] = Inr (VStr ''hello'')"
proof -
  have h1: "absent_or_dict [(''a'', VDict [(''x'', VInt 1)])] ''a''"
    by (simp add: absent_or_dict_def)
  have h2: "absent_or_dict (sub_dict [(''a'', VDict [(''x'', VInt 1)])] ''a'') ''b''"
    by (simp add: absent_or_dict_def sub_dict_def)
  from key_path_round_trip [OF h1 h2] h1 h2 show ?thesis by blast
qed

subsection \<open>How the matcher runs on the text of a directive\<close>

lemma in_cls_eta [simp]:
  "in_cls CDigit = is_digit" "in_cls CWord = is_word" "in_cls CSpace = is_space"
  by (rule ext, simp)+


lemma rmatch_lit: "rmatch (lit w @ items) (w @ s) caps = rmatch items s caps"
  by (induction w) (simp_all add: lit_def)

lemma rmatch_star_run:
  "list_all (in_cls k) w \<Longrightarrow> \<not> starts k s \<Longrightarrow> rmatch items s caps = Some r \<Longrightarrow>
   rmatch (RStar k # items) (w @ s) caps = Some r"
proof (induction w)
  case Nil
  then show ?case by (cases s) simp_all
next
  case (Cons a w)
  then show ?case by simp
qed



lemma dropWhile_run: "list_all P w \<Longrightarrow> dropWhile P (w @ s) = dropWhile P s"
  by (induction w) simp_all










lemma search_hit: "rmatch items s [] = Some r \<Longrightarrow> search items s = Some (finish r)"
  by (cases s) simp_all



















subsection \<open>Decreasing a resource\<close>



subsection \<open>A pattern inside a longer text\<close>





subsection \<open>The invariant of the resources\<close>

















section \<open>Properties of the response parser\<close>

lemma rmatch_lit_fail: "\<not> prefix_of w s \<Longrightarrow> rmatch (lit w @ items) s caps = None"
proof (induction w arbitrary: s)
  case Nil
  then show ?case by simp
next
  case (Cons a w)
  then show ?case by (cases s) (auto simp: lit_def)
qed

lemma search_no_start:
  "no_start w pre s \<Longrightarrow> search (lit w @ items) (pre @ s) = search (lit w @ items) s"
proof (induction pre)
  case Nil
  then show ?case by simp
next
  case (Cons a pre)
  then show ?case by (simp add: rmatch_lit_fail)
qed

lemma until_look_split: "\<exists>g. s = g @ until_look alts s"
proof (induction s)
  case Nil
  then show ?case by simp
next
  case (Cons a s)
  then obtain g where g: "s = g @ until_look alts s" by blast
  show ?case
  proof (cases "list_ex (\<lambda>l. look_ok l (a # s)) alts")
    case True
    then have "a # s = [] @ until_look alts (a # s)" by simp
    then show ?thesis by blast
  next
    case False
    then have "until_look alts (a # s) = until_look alts s" by simp
    with g have "a # s = (a # g) @ until_look alts (a # s)" by simp
    then show ?thesis by blast
  qed
qed

lemma until_look_length: "length (until_look alts s) \<le> length s"
  by (induction s) auto

lemma until_look_holds:
  "until_look alts s = [] \<or> list_ex (\<lambda>a. look_ok a (until_look alts s)) alts"
  by (induction s) auto

lemma rmatch_lazy_look:
  "list_ex (\<lambda>a. look_ok a []) alts \<Longrightarrow>
   rmatch [RLazy CDotAll, RClose, RLook alts] s (b # cs) =
     Some (take (length b - length (until_look alts s)) b # cs, until_look alts s)"
  by (induction s) simp_all

lemma rmatch_group_look:
  assumes "list_ex (\<lambda>a. look_ok a []) alts"
  shows "rmatch [ROpen, RLazy CDotAll, RClose, RLook alts] s caps =
     Some (take (length s - length (until_look alts s)) s # caps, until_look alts s)"
  by (simp add: rmatch_lazy_look [OF assms])

lemma take_until_look:
  "take (length s - length (until_look alts s)) s @ until_look alts s = s"
proof -
  obtain g where g: "s = g @ until_look alts s" using until_look_split by blast
  define u where "u = until_look alts s"
  with g have "s = g @ u" by simp
  then have "take (length s - length u) s @ u = s" by simp
  then show ?thesis by (simp only: u_def)
qed

lemma starts_dropWhile: "\<not> starts CSpace (dropWhile is_space s)"
  by (induction s) simp_all

lemma rmatch_marker_tail:
  assumes "list_ex (\<lambda>a. look_ok a []) alts"
  shows "rmatch [RStar CSpace, ROpen, RLazy CDotAll, RClose, RLook alts] s [] =
     Some ([take (length (lstrip s) - length (until_look alts (lstrip s))) (lstrip s)],
           until_look alts (lstrip s))"
proof -
  have s: "takeWhile is_space s @ lstrip s = s" by (simp add: lstrip_def)
  have "rmatch (RStar CSpace # [ROpen, RLazy CDotAll, RClose, RLook alts])
          (takeWhile is_space s @ lstrip s) [] =
        Some ([take (length (lstrip s) - length (until_look alts (lstrip s))) (lstrip s)],
           until_look alts (lstrip s))"
  proof (rule rmatch_star_run)
    show "list_all (in_cls CSpace) (takeWhile is_space s)"
      by (auto simp: list_all_iff dest: set_takeWhileD)
    show "\<not> starts CSpace (lstrip s)" by (simp add: lstrip_def starts_dropWhile)
    show "rmatch [ROpen, RLazy CDotAll, RClose, RLook alts] (lstrip s) [] =
        Some ([take (length (lstrip s) - length (until_look alts (lstrip s))) (lstrip s)],
           until_look alts (lstrip s))"
      by (rule rmatch_group_look [OF assms])
  qed
  then show ?thesis by (simp only: s)
qed


lemma space_newline: "is_space newline"
  by (simp add: is_space_def newline_def code_def)

lemma rstrip_drop_spaces: "list_all is_space r \<Longrightarrow> rstrip (g @ r) = rstrip g"
  by (simp add: rstrip_def dropWhile_run)

lemma lstrip_unspaced: "\<not> starts CSpace (g @ r) \<Longrightarrow> lstrip g = g"
  by (cases g) (simp_all add: lstrip_def)

lemma strip_group:
  assumes "lstrip body = g @ r" "r = [] \<or> r = [newline]"
  shows "strip g = strip body"
proof -
  from assms(2) have r: "list_all is_space r" by (auto simp: space_newline)
  have "\<not> starts CSpace (lstrip body)" by (simp add: lstrip_def starts_dropWhile)
  with assms(1) have "\<not> starts CSpace (g @ r)" by simp
  from lstrip_unspaced [OF this] have "strip g = rstrip g" by (simp add: strip_def)
  also have "\<dots> = rstrip (g @ r)" by (simp add: rstrip_drop_spaces [OF r])
  also have "\<dots> = strip body" by (simp add: strip_def assms(1))
  finally show ?thesis .
qed

lemma strip_empty: "(strip s = []) = list_all is_space s"
proof -
  have "(strip s = []) = (dropWhile is_space (rev (dropWhile is_space s)) = [])"
    by (simp add: strip_def rstrip_def lstrip_def)
  also have "\<dots> = (\<forall>x\<in>set (dropWhile is_space s). is_space x)"
    by (simp add: dropWhile_eq_Nil_conv)
  also have "\<dots> = (dropWhile is_space s = [])"
    by (metis dropWhile_eq_Nil_conv dropWhile_idem)
  also have "\<dots> = list_all is_space s"
    by (simp add: dropWhile_eq_Nil_conv list_all_iff)
  finally show ?thesis .
qed

lemma substr_of_suffix: "prefix_of m u \<Longrightarrow> m \<noteq> [] \<Longrightarrow> substr_of m (g @ u)"
proof (induction g)
  case Nil
  then show ?case by (cases u; cases m) auto
next
  case (Cons a g)
  then show ?case by simp
qed

lemma marker_group:
  assumes "list_ex (\<lambda>a. look_ok a []) alts"
  shows "\<exists>g r. group1 (search (lit (c # w) @ [RStar CSpace, ROpen, RLazy CDotAll, RClose, RLook alts])
             ((c # w) @ body)) = Some g \<and>
           lstrip body = g @ r \<and> r = until_look alts (lstrip body)"
proof -
  let ?tail = "[RStar CSpace, ROpen, RLazy CDotAll, RClose, RLook alts]"
  let ?g = "take (length (lstrip body) - length (until_look alts (lstrip body))) (lstrip body)"
  have "rmatch (lit (c # w) @ ?tail) ((c # w) @ body) [] = Some ([?g], until_look alts (lstrip body))"
    by (simp only: rmatch_lit rmatch_marker_tail [OF assms])
  from search_hit [OF this] have "group1 (search (lit (c # w) @ ?tail) ((c # w) @ body)) = Some ?g"
    by (simp add: finish_def)
  moreover have "lstrip body = ?g @ until_look alts (lstrip body)"
    by (simp only: take_until_look)
  ultimately show ?thesis by blast
qed

text \<open>
  C5, as stated, fails: with the markers in the reversed order the narrative is not
  empty. The search for the narrative does not look at what stands before its marker,
  and takes the text after it up to the end.
\<close>

theorem reversed_markers_counterexample:
  "process_user_decision (Some reversed_text) =
     Some (''You wait.'', [''rest'' @ [newline] @ ''NEXT_SITUATION_DESCRIPTION: You wait.''])"
  by code_simp

text \<open>
  C5, amended: for every text in which \<open>NEXT_SITUATION_DESCRIPTION:\<close> begins first at
  the end of \<open>pre\<close> (whatever \<open>pre\<close> holds, the other marker included) and no
  \<open>JSON_MODIFICATIONS:\<close> at the start of a line follows it, the parser returns, and the
  narrative is the text after the marker, trimmed; it is empty exactly when only white
  space follows the marker.
\<close>

theorem narrative_after_marker:
  assumes "no_start next_marker pre (next_marker @ body)"
    and "\<not> substr_of (newline # mods_marker) body"
  shows "(\<exists>mods. process_user_decision (Some (pre @ next_marker @ body)) = Some (strip body, mods)) \<and>
         (parse_next_situation (pre @ next_marker @ body) = []) = list_all is_space body"
proof -
  let ?alts = "[LStr (newline # ''JSON_MODIFICATIONS:''), LEnd]"
  have ex: "list_ex (\<lambda>a. look_ok a []) ?alts" by (simp add: at_eol_def)
  have nm: "next_marker = CHR ''N'' # ''EXT_SITUATION_DESCRIPTION:''" by (simp add: next_marker_def)
  from marker_group [OF ex, of "CHR ''N''" "''EXT_SITUATION_DESCRIPTION:''" body]
  obtain g r where g: "group1 (search next_rx (next_marker @ body)) = Some g"
    and split: "lstrip body = g @ r" and r: "r = until_look ?alts (lstrip body)"
    by (auto simp: next_rx_def nm)
  have "r = [] \<or> r = [newline]"
  proof (rule ccontr)
    assume n: "\<not> (r = [] \<or> r = [newline])"
    with until_look_holds [of ?alts "lstrip body"] r
    have "prefix_of (newline # mods_marker) r" by (auto simp: at_eol_def mods_marker_def)
    then have "substr_of (newline # mods_marker) ((takeWhile is_space body @ g) @ r)"
      by (rule substr_of_suffix) simp
    moreover have "(takeWhile is_space body @ g) @ r = body"
      using split by (simp add: lstrip_def flip: split)
    ultimately show False using assms(2) by simp
  qed
  from strip_group [OF split this] have sg: "strip g = strip body" .
  have "search next_rx (pre @ next_marker @ body) = search next_rx (next_marker @ body)"
    using search_no_start [OF assms(1)] by (simp add: next_rx_def next_marker_def)
  with g sg have n: "parse_next_situation (pre @ next_marker @ body) = strip body"
    by (simp add: parse_next_situation_def)
  have "pre @ next_marker @ body \<noteq> []" by (simp add: next_marker_def)
  with n show ?thesis by (simp add: process_user_decision_def strip_empty)
qed

theorem narrative_after_marker_witness:
  "no_start next_marker (''JSON_MODIFICATIONS:'' @ [newline] @ ''- rest'' @ [newline])
     (next_marker @ '' You wait.'') \<and>
   \<not> substr_of (newline # mods_marker) '' You wait.'' \<and>
   (\<exists>mods. process_user_decision
      (Some ((''JSON_MODIFICATIONS:'' @ [newline] @ ''- rest'' @ [newline]) @ next_marker @ '' You wait.''))
        = Some (strip '' You wait.'', mods)) \<and>
   strip '' You wait.'' = ''You wait.''"
proof -
  have h1: "no_start next_marker (''JSON_MODIFICATIONS:'' @ [newline] @ ''- rest'' @ [newline])
     (next_marker @ '' You wait.'')" by code_simp
  have h2: "\<not> substr_of (newline # mods_marker) '' You wait.''" by code_simp
  have h3: "strip '' You wait.'' = ''You wait.''" by code_simp
  from narrative_after_marker [OF h1 h2] h1 h2 h3 show ?thesis by blast
qed

subsection \<open>The list of directives\<close>

lemma prefix_of_append: "prefix_of p s \<Longrightarrow> \<exists>t. s = p @ t"
proof (induction p arbitrary: s)
  case Nil
  then show ?case by simp
next
  case (Cons a p)
  then show ?case by (cases s) auto
qed

lemma item_rx_alts: "item_rx = lit ''- '' @ [ROpen, RLazy CDotAll, RClose, RLook item_alts]"
  by (simp add: item_rx_def item_alts_def)

lemma item_alts_end: "list_ex (\<lambda>a. look_ok a []) item_alts"
  by (simp add: item_alts_def at_eol_def)

lemma rmatch_item_hit:
  "rmatch item_rx (''- '' @ t) [] = Some ([item_group t], until_look item_alts t)"
  by (simp only: item_rx_alts rmatch_lit rmatch_group_look [OF item_alts_end] item_group_def)

lemma rmatch_item_miss: "\<not> prefix_of ''- '' s \<Longrightarrow> rmatch item_rx s [] = None"
  by (simp add: item_rx_alts rmatch_lit_fail)

lemma search_item_shorter:
  "search item_rx s = Some (g, rest) \<Longrightarrow> length rest < length s"
proof (induction s)
  case Nil
  then show ?case by (simp add: rmatch_item_miss)
next
  case (Cons x xs)
  show ?case
  proof (cases "prefix_of ''- '' (x # xs)")
    case True
    then obtain t where t: "x # xs = ''- '' @ t" using prefix_of_append by blast
    with Cons.prems rmatch_item_hit [of t] have "rest = until_look item_alts t"
      by (simp add: finish_def)
    with until_look_length [of item_alts t] t show ?thesis
      by (metis length_append length_Cons less_Suc_eq_le list.size(3) add_Suc add_0 le_imp_less_Suc le_SucI)
  next
    case False
    with Cons.prems have "search item_rx xs = Some (g, rest)" by (simp add: rmatch_item_miss)
    from Cons.IH [OF this] show ?thesis by simp
  qed
qed

lemma findall_item_Nil: "findall item_rx [] = []"
  by (subst findall.simps) (simp add: rmatch_item_miss)

lemma findall_item_hit:
  "findall item_rx (''- '' @ t) = [item_group t] # findall item_rx (until_look item_alts t)"
proof -
  have s: "search item_rx (''- '' @ t) = Some ([item_group t], until_look item_alts t)"
    using search_hit [OF rmatch_item_hit [of t]] by (simp add: finish_def)
  have "length (until_look item_alts t) < length (''- '' @ t)"
    using until_look_length [of item_alts t] by simp
  with s show ?thesis by (subst findall.simps) simp
qed

lemma findall_item_miss:
  assumes "\<not> prefix_of ''- '' (x # xs)"
  shows "findall item_rx (x # xs) = findall item_rx xs"
proof -
  from assms have s: "search item_rx (x # xs) = search item_rx xs" by (simp add: rmatch_item_miss)
  show ?thesis
  proof (cases "search item_rx xs")
    case None
    with s show ?thesis by (subst (1 2) findall.simps) simp
  next
    case (Some r)
    obtain g rest where r: "r = (g, rest)" by (cases r)
    with Some search_item_shorter have "length rest < length xs" by blast
    with s Some r show ?thesis by (subst (1 2) findall.simps) simp
  qed
qed


lemma until_look_item_skip:
  "x \<noteq> newline \<Longrightarrow> until_look item_alts (x # xs) = until_look item_alts xs"
  by (simp add: item_alts_def at_eol_def)

lemma until_look_item_line:
  "newline \<notin> set w \<Longrightarrow> c \<noteq> newline \<Longrightarrow>
   until_look item_alts (w @ c # v) = until_look item_alts v"
proof (induction w)
  case Nil
  from until_look_item_skip [OF Nil(2)] show ?case by simp
next
  case (Cons a w)
  then have "a \<noteq> newline" by auto
  from until_look_item_skip [OF this, of "w @ c # v"] Cons show ?case by simp
qed

lemma item_group_line:
  assumes "newline \<notin> set w" "\<not> is_space c"
  shows "strip (item_group (w @ c # v)) \<noteq> []"
proof -
  from assms(2) have c: "c \<noteq> newline" using space_newline by auto
  obtain g where g: "v = g @ until_look item_alts v" using until_look_split by blast
  define u where "u = until_look item_alts v"
  with g have v: "v = g @ u" by simp
  have "item_group (w @ c # v) = take (length (w @ c # v) - length u) (w @ c # v)"
    by (simp add: item_group_def until_look_item_line [OF assms(1) c] u_def)
  also have "\<dots> = w @ c # g" using v by simp
  finally have "c \<in> set (item_group (w @ c # v))" by simp
  with assms(2) have "\<not> list_all is_space (item_group (w @ c # v))"
    by (auto simp: list_all_iff)
  then show ?thesis by (simp add: strip_empty)
qed

lemma until_look_item_cut:
  "\<exists>u'. until_look item_alts (u @ newline # ''- '' @ t) = u' @ newline # ''- '' @ t"
proof (induction u)
  case Nil
  have "until_look item_alts (newline # ''- '' @ t) = newline # ''- '' @ t"
    by (simp add: item_alts_def)
  then show ?case by simp
next
  case (Cons a u)
  show ?case
  proof (cases "list_ex (\<lambda>l. look_ok l (a # u @ newline # ''- '' @ t)) item_alts")
    case True
    then have "until_look item_alts ((a # u) @ newline # ''- '' @ t) = (a # u) @ newline # ''- '' @ t"
      by simp
    then show ?thesis by blast
  next
    case False
    then have "until_look item_alts ((a # u) @ newline # ''- '' @ t) =
        until_look item_alts (u @ newline # ''- '' @ t)" by simp
    with Cons show ?thesis by simp
  qed
qed

lemma has_item_line:
  assumes "newline \<notin> set w" "\<not> is_space c"
  shows "s = ''- '' @ w @ c # v \<or> (\<exists>u. s = u @ newline # ''- '' @ w @ c # v) \<Longrightarrow> has_item s"
proof (induction "length s" arbitrary: s rule: less_induct)
  case less
  let ?t = "w @ c # v"
  from less.prems show ?case
  proof
    assume "s = ''- '' @ ?t"
    then show ?thesis
      using item_group_line [OF assms, of v]
      by (simp add: has_item_def findall_item_hit [of ?t, simplified])
  next
    assume "\<exists>u. s = u @ newline # ''- '' @ ?t"
    then obtain u where s: "s = u @ newline # ''- '' @ ?t" by blast
    show ?thesis
    proof (cases "prefix_of ''- '' s")
      case True
      then obtain r where r: "s = ''- '' @ r" using prefix_of_append by blast
      with s obtain u0 where u0: "r = u0 @ newline # ''- '' @ ?t"
        by (cases u; cases "tl u") (auto simp: newline_def)
      from until_look_item_cut [of u0 ?t] u0 obtain u' where
        u': "until_look item_alts r = u' @ newline # ''- '' @ ?t" by auto
      have "length (until_look item_alts r) < length s"
        using until_look_length [of item_alts r] r by simp
      from less.hyps [OF this] u' have "has_item (until_look item_alts r)" by blast
      with r show ?thesis
        by (simp add: has_item_def findall_item_hit [of r, simplified])
    next
      case False
      show ?thesis
      proof (cases u)
        case Nil
        with s have s': "s = newline # ''- '' @ ?t" by simp
        have "has_item (''- '' @ ?t)"
          using less.hyps [of "''- '' @ ?t"] s' by simp
        with False s' show ?thesis
          using findall_item_miss [of newline "''- '' @ ?t"] by (simp add: has_item_def)
      next
        case (Cons a u1)
        with s have s': "s = a # u1 @ newline # ''- '' @ ?t" by simp
        have "has_item (u1 @ newline # ''- '' @ ?t)"
          using less.hyps [of "u1 @ newline # ''- '' @ ?t"] s' by auto
        with False s' show ?thesis
          using findall_item_miss [of a "u1 @ newline # ''- '' @ ?t"] by (simp add: has_item_def)
      qed
    qed
  qed
qed


lemma dash_not_space: "\<not> is_space CHR ''-''"
  by (simp add: is_space_def code_def)

lemma rstrip_keep: "\<not> is_space c \<Longrightarrow> rstrip (xs @ c # v) = xs @ c # rstrip v"
  by (simp add: rstrip_def dropWhile_append)

lemma strip_has_line:
  assumes "\<not> is_space c"
  shows "strip (u @ newline # ''- '' @ w @ c # v) = ''- '' @ w @ c # rstrip v \<or>
         (\<exists>u'. strip (u @ newline # ''- '' @ w @ c # v) = u' @ newline # ''- '' @ w @ c # rstrip v)"
proof (cases "list_all is_space u")
  case True
  then have "lstrip (u @ newline # ''- '' @ w @ c # v) = ''- '' @ w @ c # v"
    by (simp add: lstrip_def dropWhile_append list_all_iff space_newline dash_not_space)
  then have "strip (u @ newline # ''- '' @ w @ c # v) = rstrip ((''- '' @ w) @ c # v)"
    by (simp add: strip_def)
  also have "\<dots> = (''- '' @ w) @ c # rstrip v" by (rule rstrip_keep [OF assms])
  finally show ?thesis by simp
next
  case False
  then obtain x where x: "x \<in> set u" "\<not> is_space x" by (auto simp: list_all_iff)
  from dropWhile_append1 [of x u is_space, OF x]
  have "lstrip (u @ newline # ''- '' @ w @ c # v) =
      dropWhile is_space u @ newline # ''- '' @ w @ c # v"
    by (simp add: lstrip_def)
  then have "strip (u @ newline # ''- '' @ w @ c # v) =
      rstrip ((dropWhile is_space u @ newline # ''- '' @ w) @ c # v)"
    by (simp add: strip_def)
  also have "\<dots> = (dropWhile is_space u @ newline # ''- '' @ w) @ c # rstrip v"
    by (rule rstrip_keep [OF assms])
  finally show ?thesis by simp
qed

lemma mods_rx_alts: "mods_rx = lit mods_marker @ [RStar CSpace, ROpen, RLazy CDotAll, RClose, RLook [LEnd]]"
  by (simp add: mods_rx_def mods_marker_def)

lemma mods_group_here:
  "\<exists>g. group1 (search mods_rx (mods_marker @ after)) = Some g \<and> strip g = strip after"
proof -
  have ex: "list_ex (\<lambda>a. look_ok a []) [LEnd]" by (simp add: at_eol_def)
  have mm: "mods_marker = CHR ''J'' # ''SON_MODIFICATIONS:''" by (simp add: mods_marker_def)
  from marker_group [OF ex, of "CHR ''J''" "''SON_MODIFICATIONS:''" after]
  obtain g r where g: "group1 (search mods_rx (mods_marker @ after)) = Some g"
    and split: "lstrip after = g @ r" and r: "r = until_look [LEnd] (lstrip after)"
    by (auto simp: mods_rx_def mm)
  from until_look_holds [of "[LEnd]" "lstrip after"] r have "r = [] \<or> r = [newline]"
    by (auto simp: at_eol_def)
  from strip_group [OF split this] g show ?thesis by blast
qed

lemma mods_group_first:
  "\<exists>g mid. group1 (search mods_rx (a @ mods_marker @ rest)) = Some g \<and> strip g = strip (mid @ rest)"
proof (induction a)
  case Nil
  from mods_group_here [of rest] show ?case by (metis append_Nil)
next
  case (Cons x a)
  let ?s = "x # a @ mods_marker @ rest"
  show ?case
  proof (cases "prefix_of mods_marker ?s")
    case True
    then obtain after where after: "?s = mods_marker @ after" using prefix_of_append by blast
    have "after = drop (length mods_marker) (mods_marker @ after)" by simp
    also have "\<dots> = drop (length mods_marker) ((x # a @ mods_marker) @ rest)"
      using after by simp
    also have "\<dots> = drop (length mods_marker) (x # a @ mods_marker) @ rest"
      by (simp only: drop_append) simp
    finally obtain mid where "after = mid @ rest" by blast
    with mods_group_here [of after] after show ?thesis by (metis append_Cons)
  next
    case False
    then have "search mods_rx ?s = search mods_rx (a @ mods_marker @ rest)"
      by (simp add: mods_rx_alts rmatch_lit_fail)
    with Cons show ?thesis by simp
  qed
qed

lemma rstrip_split: "\<exists>r. l = rstrip l @ r"
proof -
  have "rev l = takeWhile is_space (rev l) @ dropWhile is_space (rev l)" by simp
  then have "l = rev (dropWhile is_space (rev l)) @ rev (takeWhile is_space (rev l))"
    by (metis rev_append rev_rev_ident)
  then show ?thesis by (auto simp: rstrip_def)
qed

lemma strip_idem: "strip (strip s) = strip s"
proof -
  let ?l = "lstrip s"
  obtain r where r: "?l = rstrip ?l @ r" using rstrip_split by blast
  have "\<not> starts CSpace ?l" by (simp add: lstrip_def starts_dropWhile)
  with r have "\<not> starts CSpace (rstrip ?l @ r)" by simp
  from lstrip_unspaced [OF this] have "lstrip (rstrip ?l) = rstrip ?l" .
  moreover have "rstrip (rstrip ?l) = rstrip ?l" by (simp add: rstrip_def)
  ultimately show ?thesis by (simp add: strip_def)
qed

lemma parse_modifications_trimmed:
  "list_all (\<lambda>d. d \<noteq> [] \<and> strip d = d) (parse_modifications j)"
  by (auto simp: parse_modifications_def list_all_iff strip_idem)

text \<open>
  C6, as stated, fails: a dash line with nothing but white space after the dash gives
  no directive. The markers stand in the documented order, a line beginning with the
  dash follows, and the list is empty.
\<close>

theorem blank_dash_line_counterexample:
  "process_user_decision (Some blank_item_text) = Some (''You wait.'', [])"
  by code_simp

text \<open>
  C6, amended: for every text in which, after \<open>JSON_MODIFICATIONS:\<close>, a line begins
  with the dash and the space and goes on, before the line ends, to a character that is
  not white space, the parser returns a directive list that is not empty, and each
  directive in it is a non-empty trimmed text. (What stands before the marker, the
  narrative in the documented order, plays no part.)
\<close>

theorem directives_found:
  assumes "newline \<notin> set w" "\<not> is_space c"
  shows "\<exists>narrative ds.
           process_user_decision (Some (a @ mods_marker @ b @ newline # ''- '' @ w @ c # v))
             = Some (narrative, ds) \<and>
           ds \<noteq> [] \<and> list_all (\<lambda>d. d \<noteq> [] \<and> strip d = d) ds"
proof -
  let ?text = "a @ mods_marker @ b @ newline # ''- '' @ w @ c # v"
  let ?j = "parse_json_mods_text ?text"
  from mods_group_first [of a "b @ newline # ''- '' @ w @ c # v"] obtain g mid where
    g: "group1 (search mods_rx ?text) = Some g"
    and sg: "strip g = strip ((mid @ b) @ newline # ''- '' @ w @ c # v)" by auto
  then have j: "?j = strip ((mid @ b) @ newline # ''- '' @ w @ c # v)"
    by (simp add: parse_json_mods_text_def)
  from strip_has_line [OF assms(2), of "mid @ b" w v] j
  have q: "?j = ''- '' @ w @ c # rstrip v \<or> (\<exists>u'. ?j = u' @ newline # ''- '' @ w @ c # rstrip v)"
    by simp
  from has_item_line [OF assms, OF q] have h: "has_item ?j" .
  from q have ne: "?j \<noteq> []" by auto
  from h ne have "parse_modifications ?j \<noteq> []"
    by (auto simp: parse_modifications_def has_item_def list_ex_iff filter_empty_conv)
  moreover have "?text \<noteq> []" by (simp add: mods_marker_def)
  ultimately show ?thesis
    using parse_modifications_trimmed [of ?j] by (simp add: process_user_decision_def)
qed

theorem directives_found_witness:
  "newline \<notin> set '' '' \<and> \<not> is_space CHR ''d'' \<and>
   (\<exists>narrative ds.
      process_user_decision
        (Some ((''NEXT_SITUATION_DESCRIPTION: You run.'' @ [newline]) @ mods_marker @ [] @
               newline # ''- '' @ '' '' @ CHR ''d'' # ''ecrease resources.food by 1''))
        = Some (narrative, ds) \<and>
      ds \<noteq> [] \<and> list_all (\<lambda>d. d \<noteq> [] \<and> strip d = d) ds) \<and>
   process_user_decision
        (Some ((''NEXT_SITUATION_DESCRIPTION: You run.'' @ [newline]) @ mods_marker @ [] @
               newline # ''- '' @ '' '' @ CHR ''d'' # ''ecrease resources.food by 1''))
     = Some (''You run.'', [''decrease resources.food by 1''])"
proof -
  have h1: "newline \<notin> set '' ''" by (simp add: newline_def)
  have h2: "\<not> is_space CHR ''d''" by (simp add: is_space_def code_def)
  have h3: "process_user_decision
        (Some ((''NEXT_SITUATION_DESCRIPTION: You run.'' @ [newline]) @ mods_marker @ [] @
               newline # ''- '' @ '' '' @ CHR ''d'' # ''ecrease resources.food by 1''))
     = Some (''You run.'', [''decrease resources.food by 1''])" by code_simp
  from directives_found [OF h1 h2, of "''NEXT_SITUATION_DESCRIPTION: You run.'' @ [newline]" "[]"
         "''ecrease resources.food by 1''"] h1 h2 h3
  show ?thesis by blast
qed

end
